theory Spec2Isabelle
  imports Main "HOL-Library.Product_Lexorder"
begin

section \<open>Errors\<close>

text \<open>
  A Go \<^verbatim>\<open>error\<close> is either \<^verbatim>\<open>nil\<close> (\<open>None\<close>) or a value. The values this
  development meets are the ones built by \<^verbatim>\<open>fmt.Errorf(format, args...)\<close>, kept as the
  format string with its arguments, and the ones handed back by collaborators outside the
  repository (the HTTP stack, the gRPC client), kept as their text. \<open>ParseError\<close> is
  the error of the version parser, which names the string it could not parse.
\<close>

datatype arg = ArgString string | ArgInt int

datatype error = Errorf string "arg list" | External string | ParseError string

section \<open>The health checker (pkg/healthcheck/healthcheck.go)\<close>

subsection \<open>Data\<close>

text \<open>
  Modelled from the spec: the generated package \<^verbatim>\<open>healthcheckPb\<close> is not part of the
  sources at hand. A self-check response is an ordered sequence of results, each with a
  subsystem name, a description, a status and a user-facing message; the status has one
  value \<^verbatim>\<open>CheckStatus_OK\<close> and the code only tells it from every other value.
\<close>

datatype CheckStatus = CheckStatus_OK | CheckStatus_NotOK nat

record CheckResult =
  SubsystemName :: string
  CheckDescription :: string
  Status :: CheckStatus
  FriendlyMessageToUser :: string

record SelfCheckResponse =
  Results :: "CheckResult list"

text \<open>
  The fields of \<^verbatim>\<open>HealthChecker\<close> other than the list of checkers. The registered
  closures read and write them; their types belong to other packages.
\<close>

typedecl KubernetesApi
typedecl http_Client
typedecl version_Info
typedecl ApiClient

record PipelineContext =
  kubeApi :: "KubernetesApi option"
  httpClient :: "http_Client option"
  kubeVersion :: "version_Info option"
  apiClient :: "ApiClient option"
  latestVersion :: string

text \<open>
  \<^verbatim>\<open>check func() error\<close> and
  \<^verbatim>\<open>checkRpc func() (*SelfCheckResponse, error)\<close> are closures over the health
  checker: each takes the context it finds and returns its result with the context it
  leaves. A \<^verbatim>\<open>nil\<close> function field is \<open>None\<close>; so is a \<^verbatim>\<open>nil\<close> response
  pointer and a \<^verbatim>\<open>nil\<close> error.
\<close>

record checker =
  category :: string
  description :: string
  fatal :: bool
  check :: "(PipelineContext \<Rightarrow> error option \<times> PipelineContext) option"
  checkRpc :: "(PipelineContext \<Rightarrow>
                 (SelfCheckResponse option \<times> error option) \<times> PipelineContext) option"

record HealthChecker =
  checkers :: "checker list"
  pipelineContext :: PipelineContext

definition NewHealthChecker :: HealthChecker where
  "NewHealthChecker =
     \<lparr>checkers = [],
      pipelineContext = \<lparr>kubeApi = None, httpClient = None, kubeVersion = None,
                         apiClient = None, latestVersion = []\<rparr>\<rparr>"

subsection \<open>Running the checks\<close>

text \<open>
  The observer is a callback of the caller,
  \<^verbatim>\<open>type CheckObserver func(string, string, error)\<close>. Every invocation is recorded,
  in the order it happens, as the triple of its arguments.
\<close>

type_synonym observation = "string \<times> string \<times> error option"

record run =
  observed :: "observation list"
  ctx :: PipelineContext
  success :: bool

definition observe :: "string \<Rightarrow> string \<Rightarrow> error option \<Rightarrow> run \<Rightarrow> run" where
  "observe cat desc err r = r\<lparr>observed := observed r @ [(cat, desc, err)]\<rparr>"

text \<open>How one pass through the body of the outer loop ends.\<close>

datatype flow = Next | Break | Panic

text \<open>Lines 173 to 181: the inner loop over \<^verbatim>\<open>checkRsp.Results\<close>.\<close>

fun observeResults :: "string \<Rightarrow> CheckResult list \<Rightarrow> run \<Rightarrow> run" where
  "observeResults cat [] r = r"
| "observeResults cat (c # cs) r =
     (let category = cat @ ''['' @ SubsystemName c @ '']'' in
      if Status c \<noteq> CheckStatus_OK
      then observeResults cat cs
             (observe category (CheckDescription c)
                (Some (Errorf (FriendlyMessageToUser c) [])) (r\<lparr>success := False\<rparr>))
      else observeResults cat cs (observe category (CheckDescription c) None r))"

text \<open>Lines 151 to 160: the local action.\<close>

definition runCheck :: "checker \<Rightarrow> run \<Rightarrow> flow \<times> run" where
  "runCheck c r =
     (case check c of
        None \<Rightarrow> (Next, r)
      | Some f \<Rightarrow>
          (case f (ctx r) of (err, s) \<Rightarrow>
             (let r1 = observe (category c) (description c) err (r\<lparr>ctx := s\<rparr>) in
              if err \<noteq> None
              then (if fatal c then (Break, r1\<lparr>success := False\<rparr>)
                    else (Next, r1\<lparr>success := False\<rparr>))
              else (Next, r1))))"

text \<open>
  Lines 162 to 182: the remote action. Reading \<^verbatim>\<open>checkRsp.Results\<close> through a
  \<^verbatim>\<open>nil\<close> pointer panics.
\<close>

definition runCheckRpc :: "checker \<Rightarrow> run \<Rightarrow> flow \<times> run" where
  "runCheckRpc c r =
     (case checkRpc c of
        None \<Rightarrow> (Next, r)
      | Some g \<Rightarrow>
          (case g (ctx r) of ((checkRsp, err), s) \<Rightarrow>
             (let r1 = observe (category c) (description c) err (r\<lparr>ctx := s\<rparr>) in
              if err \<noteq> None
              then (if fatal c then (Break, r1\<lparr>success := False\<rparr>)
                    else (Next, r1\<lparr>success := False\<rparr>))
              else (case checkRsp of
                      None \<Rightarrow> (Panic, r1)
                    | Some rsp \<Rightarrow> (Next, observeResults (category c) (Results rsp) r1)))))"

definition loopBody :: "checker \<Rightarrow> run \<Rightarrow> flow \<times> run" where
  "loopBody c r =
     (case runCheck c r of
        (Next, r1) \<Rightarrow> runCheckRpc c r1
      | (Break, r1) \<Rightarrow> (Break, r1)
      | (Panic, r1) \<Rightarrow> (Panic, r1))"

text \<open>Line 150: the loop over \<^verbatim>\<open>hc.checkers\<close>, in the order of the slice.\<close>

fun checkLoop :: "checker list \<Rightarrow> run \<Rightarrow> flow \<times> run" where
  "checkLoop [] r = (Next, r)"
| "checkLoop (c # cs) r =
     (case loopBody c r of
        (Next, r1) \<Rightarrow> checkLoop cs r1
      | (Break, r1) \<Rightarrow> (Break, r1)
      | (Panic, r1) \<Rightarrow> (Panic, r1))"

datatype panic = NilPointerDereference "observation list"

definition start :: "PipelineContext \<Rightarrow> run" where
  "start s = \<lparr>observed = [], ctx = s, success = True\<rparr>"

definition finish :: "flow \<times> run \<Rightarrow> panic + bool \<times> observation list \<times> PipelineContext" where
  "finish fr =
     (case fr of
        (Panic, r) \<Rightarrow> Inl (NilPointerDereference (observed r))
      | (_, r) \<Rightarrow> Inr (success r, observed r, ctx r))"

text \<open>
  \<^verbatim>\<open>RunChecks\<close> returns the flag \<^verbatim>\<open>success\<close>; the model returns with it the
  observer invocations it made and the context it leaves.
\<close>

definition RunChecks :: "HealthChecker \<Rightarrow> panic + bool \<times> observation list \<times> PipelineContext" where
  "RunChecks hc = finish (checkLoop (checkers hc) (start (pipelineContext hc)))"


subsection \<open>What a run shows to its caller\<close>

text \<open>
  The arguments of the observer call of line 180 for one result of the response: the
  category built by \<^verbatim>\<open>fmt.Sprintf("%s[%s]", checker.category, check.SubsystemName)\<close>,
  the result's description, and the error of lines 175 to 179.
\<close>

definition subObservation :: "string \<Rightarrow> CheckResult \<Rightarrow> observation" where
  "subObservation cat c =
     (cat @ ''['' @ SubsystemName c @ '']'', CheckDescription c,
      if Status c \<noteq> CheckStatus_OK then Some (Errorf (FriendlyMessageToUser c) []) else None)"

definition allOK :: "CheckResult list \<Rightarrow> bool" where
  "allOK rs = list_all (\<lambda>c. Status c = CheckStatus_OK) rs"

definition noError :: "observation \<Rightarrow> bool" where
  "noError ob = (snd (snd ob) = None)"

text \<open>The flag \<^verbatim>\<open>success\<close> agrees with what the observer has been shown.\<close>

definition consistent :: "run \<Rightarrow> bool" where
  "consistent r = (success r = list_all noError (observed r))"

text \<open>The run \<open>r\<close> seen as the continuation of the run \<open>r0\<close>.\<close>

definition after :: "run \<Rightarrow> run \<Rightarrow> run" where
  "after r0 r = \<lparr>observed = observed r0 @ observed r, ctx = ctx r,
                 success = (success r0 \<and> success r)\<rparr>"

text \<open>The observer invocations of a run, whether it returned or panicked.\<close>

fun observations :: "panic + bool \<times> observation list \<times> PipelineContext \<Rightarrow> observation list" where
  "observations (Inl (NilPointerDereference obs)) = obs"
| "observations (Inr (b, obs, s)) = obs"

section \<open>The Kubernetes API client (pkg/k8s/api.go)\<close>

subsection \<open>CheckNamespaceExists\<close>

text \<open>
  Of \<^verbatim>\<open>http.Response\<close> the code reads \<^verbatim>\<open>StatusCode\<close> and the status line
  \<^verbatim>\<open>Status\<close> (here \<open>StatusText\<close>, the name \<open>Status\<close> being taken by the check
  result). Of the embedded \<^verbatim>\<open>rest.Config\<close> it reads \<^verbatim>\<open>Host\<close>.
\<close>

record http_Response =
  StatusCode :: int
  StatusText :: string

record kubernetesApi =
  Host :: string

definition StatusOK :: int where
  "StatusOK = 200"

definition StatusNotFound :: int where
  "StatusNotFound = 404"

text \<open>
  The library calls the function makes, taken as parameters: \<^verbatim>\<open>url.Parse\<close>, the
  \<^verbatim>\<open>String\<close> method of the parsed URL and \<^verbatim>\<open>http.NewRequest\<close>. The client is
  what its \<^verbatim>\<open>Do\<close> method answers to a request, within the timeout of five seconds
  that the request's context carries.
\<close>

record ('u, 'q) net =
  url_Parse :: "string \<Rightarrow> error + 'u"
  url_String :: "'u \<Rightarrow> string"
  http_NewRequest :: "string \<Rightarrow> string \<Rightarrow> error + 'q"

definition CheckNamespaceExists ::
  "('u, 'q) net \<Rightarrow> kubernetesApi \<Rightarrow> ('q \<Rightarrow> error + http_Response) \<Rightarrow> string \<Rightarrow> error option"
where
  \<open>CheckNamespaceExists net kubeapi client namespace =
     (case url_Parse net (Host kubeapi @ ''/api/v1/namespaces/'' @ namespace) of
        Inl err \<Rightarrow> Some err
      | Inr endpoint \<Rightarrow>
          (case http_NewRequest net ''GET'' (url_String net endpoint) of
             Inl err \<Rightarrow> Some err
           | Inr req \<Rightarrow>
               (case client req of
                  Inl err \<Rightarrow> Some err
                | Inr rsp \<Rightarrow>
                    if StatusCode rsp = StatusNotFound
                    then Some (Errorf ''The "%s" namespace does not exist''
                                 [ArgString namespace])
                    else if StatusCode rsp \<noteq> StatusOK
                    then Some (Errorf ''Unexpected Kubernetes API response: %s''
                                 [ArgString (StatusText rsp)])
                    else None)))\<close>

subsection \<open>Versions\<close>

text \<open>\<^verbatim>\<open>[3]int\<close>: major, minor and patch, in this order.\<close>

type_synonym VersionTriple = "int \<times> int \<times> int"

definition minApiVersion :: VersionTriple where
  "minApiVersion = (1, 8, 0)"

text \<open>
  Modelled from the spec: the parser \<^verbatim>\<open>getK8sVersion\<close> that
  \<^verbatim>\<open>CheckVersion\<close> calls is not part of the sources at hand, and neither are its
  helpers. A decimal digit, and the value of a string of decimal digits.
\<close>

definition isDigit :: "char \<Rightarrow> bool" where
  "isDigit c = (48 \<le> (of_char c :: nat) \<and> (of_char c :: nat) \<le> 57)"

definition number :: "string \<Rightarrow> int" where
  "number ds = foldl (\<lambda>n c. 10 * n + (int (of_char c) - 48)) 0 ds"

text \<open>
  Modelled from the spec: a purely numeric component, read as a non-empty string of
  decimal digits.
\<close>

definition numeric :: "string \<Rightarrow> bool" where
  "numeric ds = (ds \<noteq> [] \<and> list_all isDigit ds)"

text \<open>
  Modelled from the spec: reading one numeric component from the front of a string, as
  the longest run of digits there; the result is its value with what follows it, and
  nothing when the string does not start with a digit.
\<close>

definition component :: "string \<Rightarrow> (int \<times> string) option" where
  "component s =
     (let ds = takeWhile isDigit s
      in if ds = [] then None else Some (number ds, dropWhile isDigit s))"

text \<open>Modelled from the spec: reading the dot that separates two components.\<close>

definition separator :: "string \<Rightarrow> string option" where
  "separator s =
     (case s of
        [] \<Rightarrow> None
      | d # t \<Rightarrow> if d = CHR ''.'' then Some t else None)"

text \<open>
  Modelled from the spec: the parser \<^verbatim>\<open>getK8sVersion\<close> that
  \<^verbatim>\<open>CheckVersion\<close> calls is not part of the sources at hand. The specification's
  \<^verbatim>\<open>parse\<close> scans for the first run of up to three dot-separated numeric components,
  from the start of the string or from after a leading non-numeric tag, stops consuming
  at the first component that is not numeric, discards what follows the third, and fails
  with a parse error that names the input when it finds fewer than three. Reading a
  component as the longest run of digits is what makes \<^verbatim>\<open>v1.9.3-gke.2\<close> give
  \<open>(1, 9, 3)\<close>, as the specification says it does.
\<close>

definition parse :: "string \<Rightarrow> error + VersionTriple" where
  "parse raw =
     (case component (dropWhile (\<lambda>c. \<not> isDigit c) raw) of
        None \<Rightarrow> Inl (ParseError raw)
      | Some (major, s1) \<Rightarrow>
     (case separator s1 of
        None \<Rightarrow> Inl (ParseError raw)
      | Some s2 \<Rightarrow>
     (case component s2 of
        None \<Rightarrow> Inl (ParseError raw)
      | Some (minor, s3) \<Rightarrow>
     (case separator s3 of
        None \<Rightarrow> Inl (ParseError raw)
      | Some s4 \<Rightarrow>
     (case component s4 of
        None \<Rightarrow> Inl (ParseError raw)
      | Some (patch, rest) \<Rightarrow> Inr (major, minor, patch))))))"

text \<open>
  Modelled from the spec: the comparison \<^verbatim>\<open>isCompatibleVersion\<close> that
  \<^verbatim>\<open>CheckVersion\<close> calls is not part of the sources at hand. The specification's
  \<^verbatim>\<open>isCompatible(actual, required)\<close> holds when the actual major is greater, or the
  majors are equal and the actual minor is greater, or majors and minors are equal and
  the actual patch is at least the required one.
\<close>

definition isCompatible :: "VersionTriple \<Rightarrow> VersionTriple \<Rightarrow> bool" where
  "isCompatible actual required =
     (case actual of (amajor, aminor, apatch) \<Rightarrow>
      case required of (rmajor, rminor, rpatch) \<Rightarrow>
        amajor > rmajor
        \<or> (amajor = rmajor \<and> aminor > rminor)
        \<or> (amajor = rmajor \<and> aminor = rminor \<and> apatch \<ge> rpatch))"

text \<open>
  Lines 78 to 91. The argument is the string \<^verbatim>\<open>versionInfo.String()\<close>; the call
  \<^verbatim>\<open>isCompatibleVersion(minApiVersion, apiVersion)\<close> passes the requirement first.
\<close>

definition CheckVersion :: "string \<Rightarrow> error option" where
  "CheckVersion versionString =
     (case parse versionString of
        Inl err \<Rightarrow> Some err
      | Inr apiVersion \<Rightarrow>
          if \<not> isCompatible apiVersion minApiVersion
          then Some (Errorf
                 ''Kubernetes is on version [%d.%d.%d], but version [%d.%d.%d] or more recent is required''
                 [ArgInt (fst apiVersion), ArgInt (fst (snd apiVersion)),
                  ArgInt (snd (snd apiVersion)),
                  ArgInt (fst minApiVersion), ArgInt (fst (snd minApiVersion)),
                  ArgInt (snd (snd minApiVersion))])
          else None)"

section \<open>Example checkers\<close>

text \<open>
  Checkers shaped like the registered ones: the first two of
  \<^verbatim>\<open>AddLinkerdVersionChecks\<close> with a version override, where the second reads the
  field the first writes, and the remote check of \<^verbatim>\<open>AddLinkerdAPIChecks\<close> with
  a given answer of the control plane.
\<close>

definition newContext :: PipelineContext where
  "newContext = pipelineContext NewHealthChecker"

definition getLatest :: checker where
  "getLatest =
     \<lparr>category = ''linkerd-version'', description = ''can get the latest version'',
      fatal = True,
      check = Some (\<lambda>s. (None, s\<lparr>latestVersion := ''v18.8.2''\<rparr>)),
      checkRpc = None\<rparr>"

definition cliUpToDate :: checker where
  "cliUpToDate =
     \<lparr>category = ''linkerd-version'', description = ''cli is up-to-date'',
      fatal = False,
      check = Some (\<lambda>s. (if latestVersion s = ''v18.8.1'' then None
                           else Some (External ''is running version v18.8.1''), s)),
      checkRpc = None\<rparr>"

definition selfCheck ::
  "bool \<Rightarrow> SelfCheckResponse option \<times> error option \<Rightarrow> checker" where
  "selfCheck isFatal answer =
     \<lparr>category = ''linkerd-api'', description = ''can query the control plane API'',
      fatal = isFatal,
      check = None,
      checkRpc = Some (\<lambda>s. (answer, s))\<rparr>"

definition kubernetesOK :: CheckResult where
  "kubernetesOK =
     \<lparr>SubsystemName = ''kubernetes'',
      CheckDescription = ''control plane can talk to Kubernetes'',
      Status = CheckStatus_OK, FriendlyMessageToUser = []\<rparr>"

definition prometheusFull :: CheckResult where
  "prometheusFull =
     \<lparr>SubsystemName = ''prometheus'',
      CheckDescription = ''control plane can talk to Prometheus'',
      Status = CheckStatus_NotOK 1, FriendlyMessageToUser = ''disk full''\<rparr>"

definition twoResults :: "SelfCheckResponse option \<times> error option" where
  "twoResults = (Some \<lparr>Results = [kubernetesOK, prometheusFull]\<rparr>, None)"

definition deadlineExceeded :: "SelfCheckResponse option \<times> error option" where
  "deadlineExceeded = (None, Some (External ''context deadline exceeded''))"

definition noResults :: "SelfCheckResponse option \<times> error option" where
  "noResults = (Some \<lparr>Results = []\<rparr>, None)"

text \<open>
  A network in which every URL parses and every request can be built, and a client that
  answers every request with a given status.
\<close>

definition plainNet :: "(string, string) net" where
  "plainNet =
     \<lparr>url_Parse = Inr, url_String = (\<lambda>u. u),
      http_NewRequest = (\<lambda>method u. Inr (method @ '' '' @ u))\<rparr>"

definition answering :: "int \<Rightarrow> string \<Rightarrow> string \<Rightarrow> error + http_Response" where
  "answering code text req = Inr \<lparr>StatusCode = code, StatusText = text\<rparr>"

section \<open>Properties of RunChecks\<close>

subsection \<open>Auxiliary facts\<close>

lemmas ex_defs = getLatest_def cliUpToDate_def selfCheck_def kubernetesOK_def prometheusFull_def
  twoResults_def deadlineExceeded_def noResults_def newContext_def NewHealthChecker_def

lemmas run_defs = RunChecks_def finish_def start_def loopBody_def runCheck_def runCheckRpc_def
  observe_def

text \<open>The inner loop in closed form: one observation for each result, in the response's order.\<close>

lemma observeResults_eq:
  "observeResults cat rs r =
     r\<lparr>observed := observed r @ map (subObservation cat) rs,
       success := success r \<and> allOK rs\<rparr>"
  by (induction rs arbitrary: r) (simp_all add: observe_def subObservation_def allOK_def)

text \<open>Running a list of checkers is running its front part, then the rest if the front did not stop.\<close>

lemma checkLoop_append:
  "checkLoop (xs @ ys) r =
     (case checkLoop xs r of
        (Next, r1) \<Rightarrow> checkLoop ys r1
      | (Break, r1) \<Rightarrow> (Break, r1)
      | (Panic, r1) \<Rightarrow> (Panic, r1))"
  by (induction xs arbitrary: r) (simp_all split: prod.splits flow.splits)

text \<open>Every step keeps the flag in agreement with the observations.\<close>

lemma observe_consistent:
  "consistent r \<Longrightarrow> consistent (observe cat desc None r)"
  "consistent (observe cat desc (Some e) (r\<lparr>success := False\<rparr>))"
  "consistent ((observe cat desc (Some e) r)\<lparr>success := False\<rparr>)"
  by (auto simp: consistent_def observe_def noError_def)

lemma consistent_ctx [simp]: "consistent (r\<lparr>ctx := s\<rparr>) = consistent r"
  by (simp add: consistent_def)

lemma observeResults_consistent:
  "consistent r \<Longrightarrow> consistent (observeResults cat rs r)"
  by (induction rs arbitrary: r) (simp_all add: observe_consistent Let_def)

lemma runCheck_consistent:
  assumes "consistent r" and "runCheck c r = (fl, r')"
  shows "consistent r'"
proof (cases "check c")
  case None
  with assms show ?thesis by (simp add: runCheck_def)
next
  case (Some f)
  obtain err s where f: "f (ctx r) = (err, s)" by (cases "f (ctx r)")
  show ?thesis
  proof (cases err)
    case None
    with assms Some f show ?thesis
      by (auto simp: runCheck_def observe_consistent)
  next
    case (Some e)
    with assms \<open>check c = Some f\<close> f show ?thesis
      by (auto simp: runCheck_def Let_def observe_consistent split: if_splits)
  qed
qed

lemma runCheckRpc_consistent:
  assumes "consistent r" and "runCheckRpc c r = (fl, r')"
  shows "consistent r'"
proof (cases "checkRpc c")
  case None
  with assms show ?thesis by (simp add: runCheckRpc_def)
next
  case (Some g)
  obtain checkRsp err s where g: "g (ctx r) = ((checkRsp, err), s)"
    by (cases "g (ctx r)") auto
  show ?thesis
  proof (cases err)
    case None
    with assms Some g show ?thesis
      by (cases checkRsp)
         (auto simp: runCheckRpc_def observe_consistent observeResults_consistent)
  next
    case (Some e)
    with assms \<open>checkRpc c = Some g\<close> g show ?thesis
      by (auto simp: runCheckRpc_def Let_def observe_consistent split: if_splits)
  qed
qed

lemma loopBody_consistent:
  "consistent r \<Longrightarrow> loopBody c r = (fl, r') \<Longrightarrow> consistent r'"
  by (auto simp: loopBody_def split: prod.splits flow.splits
        dest: runCheck_consistent runCheckRpc_consistent)

lemma checkLoop_consistent:
  "consistent r \<Longrightarrow> checkLoop cs r = (fl, r') \<Longrightarrow> consistent r'"
proof (induction cs arbitrary: r)
  case Nil
  then show ?case by simp
next
  case (Cons c cs)
  then show ?case
    by (auto split: prod.splits flow.splits dest: loopBody_consistent)
qed

text \<open>The loop body, case by case.\<close>

lemma loopBody_local_ok:
  assumes "check c = Some f" and "checkRpc c = None" and "f (ctx r) = (None, s)"
  shows "loopBody c r =
           (Next, \<lparr>observed = observed r @ [(category c, description c, None)],
                   ctx = s, success = success r\<rparr>)"
  using assms by (simp add: loopBody_def runCheck_def runCheckRpc_def observe_def)

lemma loopBody_local_error:
  assumes "check c = Some f" and "f (ctx r) = (Some e, s)"
  shows "loopBody c r =
           (if fatal c
            then (Break, \<lparr>observed = observed r @ [(category c, description c, Some e)],
                          ctx = s, success = False\<rparr>)
            else runCheckRpc c
                   \<lparr>observed = observed r @ [(category c, description c, Some e)],
                    ctx = s, success = False\<rparr>)"
  using assms by (cases r) (simp add: loopBody_def runCheck_def observe_def)

lemma loopBody_rpc_error:
  assumes "check c = None" and "checkRpc c = Some g" and "g (ctx r) = ((rsp, Some e), s)"
  shows "loopBody c r =
           (if fatal c then Break else Next,
            \<lparr>observed = observed r @ [(category c, description c, Some e)],
             ctx = s, success = False\<rparr>)"
  using assms by (simp add: loopBody_def runCheck_def runCheckRpc_def observe_def)

lemma loopBody_rpc_ok:
  assumes "check c = None" and "checkRpc c = Some g" and "g (ctx r) = ((Some rsp, None), s)"
  shows "loopBody c r =
           (Next,
            \<lparr>observed = observed r @ (category c, description c, None) #
                          map (subObservation (category c)) (Results rsp),
             ctx = s, success = (success r \<and> allOK (Results rsp))\<rparr>)"
  using assms
  by (simp add: loopBody_def runCheck_def runCheckRpc_def observe_def observeResults_eq)

lemma checkLoop_split:
  assumes "checkLoop pre r0 = (Next, r1)"
  shows "checkLoop (pre @ c # post) r0 =
           (case loopBody c r1 of
              (Next, r2) \<Rightarrow> checkLoop post r2
            | (Break, r2) \<Rightarrow> (Break, r2)
            | (Panic, r2) \<Rightarrow> (Panic, r2))"
  using assms by (simp add: checkLoop_append)

text \<open>A run does not look at what was observed before it, nor at the flag it inherits.\<close>

lemma runCheck_after:
  "runCheck c (after r0 r) = (case runCheck c r of (fl, r') \<Rightarrow> (fl, after r0 r'))"
  by (simp add: runCheck_def after_def observe_def Let_def split: option.splits prod.splits)

lemma runCheckRpc_after:
  "runCheckRpc c (after r0 r) = (case runCheckRpc c r of (fl, r') \<Rightarrow> (fl, after r0 r'))"
  by (simp add: runCheckRpc_def after_def observe_def Let_def observeResults_eq
        split: option.splits prod.splits)

lemma loopBody_after:
  "loopBody c (after r0 r) = (case loopBody c r of (fl, r') \<Rightarrow> (fl, after r0 r'))"
  by (simp add: loopBody_def runCheck_after runCheckRpc_after split: prod.splits flow.splits)

lemma checkLoop_after:
  "checkLoop cs (after r0 r) = (case checkLoop cs r of (fl, r') \<Rightarrow> (fl, after r0 r'))"
  by (induction cs arbitrary: r) (simp_all add: loopBody_after split: prod.splits flow.splits)

lemma after_start: "after r (start (ctx r)) = r"
  by (simp add: after_def start_def)

lemma checkLoop_from:
  "checkLoop cs r = (case checkLoop cs (start (ctx r)) of (fl, r') \<Rightarrow> (fl, after r r'))"
  using checkLoop_after [of cs r "start (ctx r)"] by (simp add: after_start)

lemma RunChecks_split:
  assumes "checkLoop pre (start s0) = (Next, r1)"
  shows "RunChecks \<lparr>checkers = pre @ c # post, pipelineContext = s0\<rparr> =
           finish (case loopBody c r1 of
                     (Next, r2) \<Rightarrow> checkLoop post r2
                   | (Break, r2) \<Rightarrow> (Break, r2)
                   | (Panic, r2) \<Rightarrow> (Panic, r2))"
  using checkLoop_split [OF assms] by (simp add: RunChecks_def)

lemma start_consistent: "consistent (start s)"
  by (simp add: consistent_def start_def)

lemma success_stays_False:
  assumes "\<not> success r" and "checkLoop cs r = (fl, r')"
  shows "\<not> success r'"
  using assms checkLoop_from [of cs r] by (auto simp: after_def split: prod.splits)

text \<open>Only a remote action that answers with neither a response nor an error makes the run panic.\<close>

lemma runCheck_no_Panic: "runCheck c r \<noteq> (Panic, r')"
  by (auto simp: runCheck_def Let_def split: option.splits prod.splits)

lemma runCheckRpc_no_Panic:
  assumes "\<forall>g s. checkRpc c = Some g \<longrightarrow> fst (fst (g s)) \<noteq> None \<or> snd (fst (g s)) \<noteq> None"
  shows "runCheckRpc c r \<noteq> (Panic, r')"
proof (cases "checkRpc c")
  case None
  then show ?thesis by (simp add: runCheckRpc_def)
next
  case (Some g)
  obtain checkRsp err s where g: "g (ctx r) = ((checkRsp, err), s)"
    by (cases "g (ctx r)") auto
  with assms Some have "checkRsp \<noteq> None \<or> err \<noteq> None"
    by (metis fst_conv snd_conv)
  with Some g show ?thesis
    by (auto simp: runCheckRpc_def Let_def)
qed

lemma loopBody_no_Panic:
  assumes "\<forall>g s. checkRpc c = Some g \<longrightarrow> fst (fst (g s)) \<noteq> None \<or> snd (fst (g s)) \<noteq> None"
  shows "loopBody c r \<noteq> (Panic, r')"
  using runCheck_no_Panic runCheckRpc_no_Panic [OF assms]
  by (auto simp: loopBody_def split: prod.splits flow.splits)

lemma checkLoop_no_Panic:
  assumes "\<forall>c\<in>set cs. \<forall>g s. checkRpc c = Some g \<longrightarrow>
             fst (fst (g s)) \<noteq> None \<or> snd (fst (g s)) \<noteq> None"
  shows "checkLoop cs r \<noteq> (Panic, r')"
  using assms
proof (induction cs arbitrary: r)
  case Nil
  then show ?case by simp
next
  case (Cons c cs)
  then have "loopBody c r \<noteq> (Panic, r')" by (simp add: loopBody_no_Panic)
  with Cons show ?case
    by (auto split: prod.splits flow.splits)
qed

lemma observations_finish: "observations (finish (fl, r)) = observed r"
  by (cases fl) (simp_all add: finish_def)

lemma observations_append:
  assumes "checkLoop pre (start s0) = (Next, r1)"
  shows "observations (RunChecks \<lparr>checkers = pre @ post, pipelineContext = s0\<rparr>) =
           observations (RunChecks \<lparr>checkers = pre, pipelineContext = s0\<rparr>) @
           observations (RunChecks \<lparr>checkers = post, pipelineContext = ctx r1\<rparr>)"
proof -
  obtain fl r' where r': "checkLoop post (start (ctx r1)) = (fl, r')"
    by (cases "checkLoop post (start (ctx r1))")
  have "checkLoop (pre @ post) (start s0) = checkLoop post r1"
    using assms by (simp add: checkLoop_append)
  also have "\<dots> = (fl, after r1 r')"
    using checkLoop_from [of post r1] r' by simp
  finally show ?thesis
    using assms r' by (simp add: RunChecks_def observations_finish after_def)
qed

subsection \<open>Remote actions that succeed\<close>

text \<open>
  C1, as the code has it. Let the checks before \<open>c\<close> run to completion, let \<open>c\<close> be a
  remote check and let its call succeed with the response \<open>rsp\<close>. Then the observer is
  first invoked for the call itself, with the check's own category and description and no
  error; after that it is invoked once for each result of the response, in the response's
  order, with the category suffixed by the subsystem name in brackets, the result's
  description, and an error built from the result's message exactly when its status is
  not OK. The flag is lowered when some result is not OK, and the run goes on with the
  checks after \<open>c\<close>.
\<close>

theorem rpc_success_observations:
  assumes "checkLoop pre (start s0) = (Next, r1)"
    and "check c = None" and "checkRpc c = Some g"
    and "g (ctx r1) = ((Some rsp, None), s1)"
  shows "RunChecks \<lparr>checkers = pre @ c # post, pipelineContext = s0\<rparr> =
           finish (checkLoop post
             \<lparr>observed = observed r1 @ (category c, description c, None) #
                  map (\<lambda>x. (category c @ ''['' @ SubsystemName x @ '']'', CheckDescription x,
                            if Status x = CheckStatus_OK then None
                            else Some (Errorf (FriendlyMessageToUser x) [])))
                      (Results rsp),
              ctx = s1,
              success = (success r1 \<and> list_all (\<lambda>x. Status x = CheckStatus_OK) (Results rsp))\<rparr>)"
proof -
  have "subObservation (category c) =
          (\<lambda>x. (category c @ ''['' @ SubsystemName x @ '']'', CheckDescription x,
                 if Status x = CheckStatus_OK then None
                 else Some (Errorf (FriendlyMessageToUser x) [])))"
    by (auto simp: subObservation_def)
  then show ?thesis
    using assms(2-4)
    by (simp add: RunChecks_split [OF assms(1)] loopBody_rpc_ok allOK_def)
qed

theorem rpc_success_observations_witness:
  "RunChecks \<lparr>checkers = [getLatest] @ selfCheck True twoResults # [cliUpToDate],
              pipelineContext = newContext\<rparr> =
     Inr (False,
          [(''linkerd-version'', ''can get the latest version'', None),
           (''linkerd-api'', ''can query the control plane API'', None),
           (''linkerd-api[kubernetes]'', ''control plane can talk to Kubernetes'', None),
           (''linkerd-api[prometheus]'', ''control plane can talk to Prometheus'',
            Some (Errorf ''disk full'' [])),
           (''linkerd-version'', ''cli is up-to-date'',
            Some (External ''is running version v18.8.1''))],
          newContext\<lparr>latestVersion := ''v18.8.2''\<rparr>)"
proof -
  have pre: "checkLoop [getLatest] (start newContext) =
               (Next, \<lparr>observed = [(''linkerd-version'', ''can get the latest version'', None)],
                       ctx = newContext\<lparr>latestVersion := ''v18.8.2''\<rparr>, success = True\<rparr>)"
    by (simp add: ex_defs run_defs)
  show ?thesis
    using rpc_success_observations [OF pre, where c = "selfCheck True twoResults"
        and g = "\<lambda>s. (twoResults, s)" and rsp = "\<lparr>Results = [kubernetesOK, prometheusFull]\<rparr>"
        and ?s1.0 = "newContext\<lparr>latestVersion := ''v18.8.2''\<rparr>" and post = "[cliUpToDate]"]
    by (simp add: ex_defs run_defs)
qed

text \<open>
  A remote check that succeeds with two results gives three observer invocations, the
  first of them for the call itself, and not two.
\<close>

theorem rpc_success_counterexample:
  "observations (RunChecks \<lparr>checkers = [selfCheck True twoResults],
                             pipelineContext = newContext\<rparr>) =
     [(''linkerd-api'', ''can query the control plane API'', None),
      (''linkerd-api[kubernetes]'', ''control plane can talk to Kubernetes'', None),
      (''linkerd-api[prometheus]'', ''control plane can talk to Prometheus'',
       Some (Errorf ''disk full'' []))]
   \<and> length (observations (RunChecks \<lparr>checkers = [selfCheck True twoResults],
                                      pipelineContext = newContext\<rparr>)) \<noteq> 2"
  by (simp add: ex_defs run_defs)

subsection \<open>Fatal errors\<close>

text \<open>
  C2. Let the checks before \<open>c\<close> run to completion, let \<open>c\<close> be fatal, and let its
  action return the error \<open>e\<close>: the local action, or the call of the remote action of
  a check without a local one. Then \<^verbatim>\<open>RunChecks\<close> returns \<open>False\<close>, the observation
  of that error is the last one of the run, and the context is the one the action left:
  none of the checks after \<open>c\<close> runs, whatever they are.
\<close>

theorem fatal_error_halts:
  assumes "checkLoop pre (start s0) = (Next, r1)"
    and "fatal c"
    and "(check c = Some f \<and> f (ctx r1) = (Some e, s1))
         \<or> (check c = None \<and> checkRpc c = Some g \<and> g (ctx r1) = ((rsp, Some e), s1))"
  shows "RunChecks \<lparr>checkers = pre @ c # post, pipelineContext = s0\<rparr> =
           Inr (False, observed r1 @ [(category c, description c, Some e)], s1)"
  using assms(2,3)
  by (auto simp: RunChecks_split [OF assms(1)] loopBody_local_error loopBody_rpc_error
        finish_def)

theorem fatal_error_halts_witness:
  "RunChecks \<lparr>checkers = [getLatest] @ selfCheck True deadlineExceeded # [cliUpToDate],
              pipelineContext = newContext\<rparr> =
     Inr (False,
          [(''linkerd-version'', ''can get the latest version'', None),
           (''linkerd-api'', ''can query the control plane API'',
            Some (External ''context deadline exceeded''))],
          newContext\<lparr>latestVersion := ''v18.8.2''\<rparr>)"
proof -
  have pre: "checkLoop [getLatest] (start newContext) =
               (Next, \<lparr>observed = [(''linkerd-version'', ''can get the latest version'', None)],
                       ctx = newContext\<lparr>latestVersion := ''v18.8.2''\<rparr>, success = True\<rparr>)"
    by (simp add: ex_defs run_defs)
  show ?thesis
    using fatal_error_halts [OF pre, where c = "selfCheck True deadlineExceeded"
        and g = "\<lambda>s. (deadlineExceeded, s)" and rsp = None
        and e = "External ''context deadline exceeded''"
        and ?s1.0 = "newContext\<lparr>latestVersion := ''v18.8.2''\<rparr>" and post = "[cliUpToDate]"]
    by (simp add: selfCheck_def deadlineExceeded_def)
qed

subsection \<open>The aggregate result\<close>

text \<open>
  C3. Whenever \<^verbatim>\<open>RunChecks\<close> returns, it returns \<open>True\<close> if and only if no
  observation of the run carries an error; so one error anywhere in the run makes the
  result \<open>False\<close>, whatever succeeds later. It does return when no remote action answers
  with neither a response nor an error.
\<close>

theorem RunChecks_success_iff:
  "(RunChecks hc = Inr (b, obs, s) \<longrightarrow> b = list_all (\<lambda>ob. snd (snd ob) = None) obs)
   \<and> ((\<forall>c\<in>set (checkers hc). \<forall>g s. checkRpc c = Some g \<longrightarrow>
          fst (fst (g s)) \<noteq> None \<or> snd (fst (g s)) \<noteq> None)
        \<longrightarrow> (\<exists>b obs s. RunChecks hc = Inr (b, obs, s)))"
proof (intro conjI impI)
  assume run: "RunChecks hc = Inr (b, obs, s)"
  obtain fl r where r: "checkLoop (checkers hc) (start (pipelineContext hc)) = (fl, r)"
    by (cases "checkLoop (checkers hc) (start (pipelineContext hc))")
  have "consistent r"
    using checkLoop_consistent [OF start_consistent r] .
  moreover from run r have "b = success r" and "obs = observed r"
    by (auto simp: RunChecks_def finish_def split: flow.splits)
  ultimately show "b = list_all (\<lambda>ob. snd (snd ob) = None) obs"
    by (simp add: consistent_def noError_def [abs_def])
next
  assume wb: "\<forall>c\<in>set (checkers hc). \<forall>g s. checkRpc c = Some g \<longrightarrow>
          fst (fst (g s)) \<noteq> None \<or> snd (fst (g s)) \<noteq> None"
  obtain fl r where r: "checkLoop (checkers hc) (start (pipelineContext hc)) = (fl, r)"
    by (cases "checkLoop (checkers hc) (start (pipelineContext hc))")
  with checkLoop_no_Panic [OF wb] have "fl \<noteq> Panic" by auto
  with r show "\<exists>b obs s. RunChecks hc = Inr (b, obs, s)"
    by (cases fl) (simp_all add: RunChecks_def finish_def)
qed

theorem RunChecks_success_iff_witness:
  "RunChecks \<lparr>checkers = [cliUpToDate, getLatest], pipelineContext = newContext\<rparr> =
     Inr (False,
          [(''linkerd-version'', ''cli is up-to-date'',
            Some (External ''is running version v18.8.1'')),
           (''linkerd-version'', ''can get the latest version'', None)],
          newContext\<lparr>latestVersion := ''v18.8.2''\<rparr>)
   \<and> \<not> list_all (\<lambda>ob. snd (snd ob) = None)
          [(''linkerd-version'', ''cli is up-to-date'',
            Some (External ''is running version v18.8.1'')),
           (''linkerd-version'', ''can get the latest version'', None)]"
proof -
  have run: "RunChecks \<lparr>checkers = [cliUpToDate, getLatest], pipelineContext = newContext\<rparr> =
     Inr (False,
          [(''linkerd-version'', ''cli is up-to-date'',
            Some (External ''is running version v18.8.1'')),
           (''linkerd-version'', ''can get the latest version'', None)],
          newContext\<lparr>latestVersion := ''v18.8.2''\<rparr>)"
    by (simp add: ex_defs run_defs)
  show ?thesis
    using RunChecks_success_iff [of "\<lparr>checkers = [cliUpToDate, getLatest],
        pipelineContext = newContext\<rparr>" False
        "[(''linkerd-version'', ''cli is up-to-date'',
            Some (External ''is running version v18.8.1'')),
           (''linkerd-version'', ''can get the latest version'', None)]"
        "newContext\<lparr>latestVersion := ''v18.8.2''\<rparr>"] run
    by simp
qed

subsection \<open>Remote actions that fail\<close>

text \<open>
  C5. Let the checks before \<open>c\<close> run to completion, let \<open>c\<close> be a remote check that is
  not fatal, and let its call return the error \<open>e\<close>. Then the observer is invoked once for
  \<open>c\<close>, with the check's category and description and the error, no result of a response
  is looked at, the flag is lowered, and the run goes on with the checks after \<open>c\<close>; it
  does not return \<open>True\<close>.
\<close>

theorem nonfatal_rpc_error_continues:
  assumes "checkLoop pre (start s0) = (Next, r1)"
    and "\<not> fatal c"
    and "check c = None" and "checkRpc c = Some g"
    and "g (ctx r1) = ((rsp, Some e), s1)"
  shows "RunChecks \<lparr>checkers = pre @ c # post, pipelineContext = s0\<rparr> =
           finish (checkLoop post
             \<lparr>observed = observed r1 @ [(category c, description c, Some e)],
              ctx = s1, success = False\<rparr>)
         \<and> RunChecks \<lparr>checkers = pre @ c # post, pipelineContext = s0\<rparr> \<noteq> Inr (True, obs, s)"
proof -
  let ?r2 = "\<lparr>observed = observed r1 @ [(category c, description c, Some e)],
              ctx = s1, success = False\<rparr>"
  have run: "RunChecks \<lparr>checkers = pre @ c # post, pipelineContext = s0\<rparr> =
               finish (checkLoop post ?r2)"
    using assms(2-5) by (simp add: RunChecks_split [OF assms(1)] loopBody_rpc_error)
  obtain fl r' where r': "checkLoop post ?r2 = (fl, r')" by (cases "checkLoop post ?r2")
  have "\<not> success r'" using success_stays_False [OF _ r'] by simp
  then have "finish (checkLoop post ?r2) \<noteq> Inr (True, obs, s)"
    by (auto simp: r' finish_def split: flow.splits)
  with run show ?thesis by simp
qed

theorem nonfatal_rpc_error_continues_witness:
  "RunChecks \<lparr>checkers = [] @ selfCheck False deadlineExceeded # [getLatest],
              pipelineContext = newContext\<rparr> =
     Inr (False,
          [(''linkerd-api'', ''can query the control plane API'',
            Some (External ''context deadline exceeded'')),
           (''linkerd-version'', ''can get the latest version'', None)],
          newContext\<lparr>latestVersion := ''v18.8.2''\<rparr>)"
proof -
  have pre: "checkLoop [] (start newContext) = (Next, start newContext)"
    by simp
  show ?thesis
    using nonfatal_rpc_error_continues [OF pre, where c = "selfCheck False deadlineExceeded"
        and g = "\<lambda>s. (deadlineExceeded, s)" and rsp = None
        and e = "External ''context deadline exceeded''"
        and ?s1.0 = "newContext" and post = "[getLatest]"]
    by (simp add: ex_defs run_defs)
qed

subsection \<open>The fatal flag and the results of a response\<close>

text \<open>
  C6. Let the checks before \<open>c\<close> run to completion, let \<open>c\<close> be a fatal remote check,
  and let its call succeed with a response in which some result is not OK. Then the run
  does not stop at \<open>c\<close>: every result of the response is observed, the flag is lowered,
  and the run goes on with the checks after \<open>c\<close>; it does not return \<open>True\<close>.
\<close>

theorem fatal_flag_spares_subresults:
  assumes "checkLoop pre (start s0) = (Next, r1)"
    and "fatal c"
    and "check c = None" and "checkRpc c = Some g"
    and "g (ctx r1) = ((Some rsp, None), s1)"
    and "x \<in> set (Results rsp)" and "Status x \<noteq> CheckStatus_OK"
  shows "RunChecks \<lparr>checkers = pre @ c # post, pipelineContext = s0\<rparr> =
           finish (checkLoop post
             \<lparr>observed = observed r1 @ (category c, description c, None) #
                           map (subObservation (category c)) (Results rsp),
              ctx = s1, success = False\<rparr>)
         \<and> RunChecks \<lparr>checkers = pre @ c # post, pipelineContext = s0\<rparr> \<noteq> Inr (True, obs, s)"
proof -
  let ?r2 = "\<lparr>observed = observed r1 @ (category c, description c, None) #
                           map (subObservation (category c)) (Results rsp),
              ctx = s1, success = False\<rparr>"
  have "\<not> allOK (Results rsp)"
    using assms(6,7) by (auto simp: allOK_def list_all_iff)
  then have run: "RunChecks \<lparr>checkers = pre @ c # post, pipelineContext = s0\<rparr> =
               finish (checkLoop post ?r2)"
    using assms(3-5) by (simp add: RunChecks_split [OF assms(1)] loopBody_rpc_ok)
  obtain fl r' where r': "checkLoop post ?r2 = (fl, r')" by (cases "checkLoop post ?r2")
  have "\<not> success r'" using success_stays_False [OF _ r'] by simp
  then have "finish (checkLoop post ?r2) \<noteq> Inr (True, obs, s)"
    by (auto simp: r' finish_def split: flow.splits)
  with run show ?thesis by simp
qed

theorem fatal_flag_spares_subresults_witness:
  "RunChecks \<lparr>checkers = [] @ selfCheck True twoResults # [getLatest],
              pipelineContext = newContext\<rparr> =
     Inr (False,
          [(''linkerd-api'', ''can query the control plane API'', None),
           (''linkerd-api[kubernetes]'', ''control plane can talk to Kubernetes'', None),
           (''linkerd-api[prometheus]'', ''control plane can talk to Prometheus'',
            Some (Errorf ''disk full'' [])),
           (''linkerd-version'', ''can get the latest version'', None)],
          newContext\<lparr>latestVersion := ''v18.8.2''\<rparr>)"
proof -
  have pre: "checkLoop [] (start newContext) = (Next, start newContext)"
    by simp
  show ?thesis
    using fatal_flag_spares_subresults [OF pre, where c = "selfCheck True twoResults"
        and g = "\<lambda>s. (twoResults, s)" and rsp = "\<lparr>Results = [kubernetesOK, prometheusFull]\<rparr>"
        and x = prometheusFull
        and ?s1.0 = "newContext" and post = "[getLatest]"]
    by (simp add: ex_defs run_defs subObservation_def)
qed

subsection \<open>Order of the observations\<close>

text \<open>
  C7, as the code has it. The observer is invoked in the order of registration: when the
  checks \<open>pre\<close> run to completion, the observations of a run over \<open>pre\<close> followed by
  \<open>post\<close> are those of \<open>pre\<close> followed by those of \<open>post\<close>, started in the
  context \<open>pre\<close> left. A local check gives exactly one observation, with the error of
  its action, also when there is none. A remote check whose call fails gives exactly one
  observation, with the error of the call. A remote check whose call succeeds gives one
  observation for the call itself, without an error, and after it exactly one observation
  for each result, in the response's order; the one of a result that is OK carries no
  error.
\<close>

theorem observer_once_per_outcome_in_order:
  "(checkLoop pre (start s0) = (Next, r1) \<longrightarrow>
      observations (RunChecks \<lparr>checkers = pre @ post, pipelineContext = s0\<rparr>) =
        observations (RunChecks \<lparr>checkers = pre, pipelineContext = s0\<rparr>) @
        observations (RunChecks \<lparr>checkers = post, pipelineContext = ctx r1\<rparr>))
   \<and> (check c = Some f \<and> checkRpc c = None \<and> f s = (err, s1) \<longrightarrow>
      observations (RunChecks \<lparr>checkers = [c], pipelineContext = s\<rparr>) =
        [(category c, description c, err)])
   \<and> (check q = None \<and> checkRpc q = Some h \<and> h u = ((answer, Some e), u1) \<longrightarrow>
      observations (RunChecks \<lparr>checkers = [q], pipelineContext = u\<rparr>) =
        [(category q, description q, Some e)])
   \<and> (check d = None \<and> checkRpc d = Some g \<and> g t = ((Some rsp, None), t1) \<longrightarrow>
      observations (RunChecks \<lparr>checkers = [d], pipelineContext = t\<rparr>) =
        (category d, description d, None) # map (subObservation (category d)) (Results rsp)
      \<and> length (observations (RunChecks \<lparr>checkers = [d], pipelineContext = t\<rparr>)) =
        Suc (length (Results rsp)))
   \<and> (Status x = CheckStatus_OK \<longrightarrow>
      subObservation cat x = (cat @ ''['' @ SubsystemName x @ '']'', CheckDescription x, None))"
proof (intro conjI impI)
  assume "checkLoop pre (start s0) = (Next, r1)"
  then show "observations (RunChecks \<lparr>checkers = pre @ post, pipelineContext = s0\<rparr>) =
        observations (RunChecks \<lparr>checkers = pre, pipelineContext = s0\<rparr>) @
        observations (RunChecks \<lparr>checkers = post, pipelineContext = ctx r1\<rparr>)"
    by (rule observations_append)
next
  assume a: "check c = Some f \<and> checkRpc c = None \<and> f s = (err, s1)"
  then have "f (ctx (start s)) = (err, s1)" by (simp add: start_def)
  with a have "observed (snd (loopBody c (start s))) = [(category c, description c, err)]"
    by (cases err)
       (simp_all add: loopBody_local_ok loopBody_local_error runCheckRpc_def start_def)
  then show "observations (RunChecks \<lparr>checkers = [c], pipelineContext = s\<rparr>) =
        [(category c, description c, err)]"
    by (cases "loopBody c (start s)")
       (auto simp: RunChecks_def observations_finish split: flow.splits)
next
  assume a: "check q = None \<and> checkRpc q = Some h \<and> h u = ((answer, Some e), u1)"
  then have "h (ctx (start u)) = ((answer, Some e), u1)" by (simp add: start_def)
  with a show "observations (RunChecks \<lparr>checkers = [q], pipelineContext = u\<rparr>) =
        [(category q, description q, Some e)]"
    by (cases "fatal q")
       (simp_all add: RunChecks_def loopBody_rpc_error observations_finish start_def)
next
  assume a: "check d = None \<and> checkRpc d = Some g \<and> g t = ((Some rsp, None), t1)"
  then have "g (ctx (start t)) = ((Some rsp, None), t1)" by (simp add: start_def)
  with a show obs: "observations (RunChecks \<lparr>checkers = [d], pipelineContext = t\<rparr>) =
        (category d, description d, None) # map (subObservation (category d)) (Results rsp)"
    by (simp add: RunChecks_def loopBody_rpc_ok observations_finish start_def)
  show "length (observations (RunChecks \<lparr>checkers = [d], pipelineContext = t\<rparr>)) =
        Suc (length (Results rsp))"
    by (simp add: obs)
next
  assume "Status x = CheckStatus_OK"
  then show "subObservation cat x =
      (cat @ ''['' @ SubsystemName x @ '']'', CheckDescription x, None)"
    by (simp add: subObservation_def)
qed

theorem observer_once_per_outcome_in_order_witness:
  "observations (RunChecks \<lparr>checkers = [getLatest] @ [cliUpToDate, selfCheck True twoResults],
                            pipelineContext = newContext\<rparr>) =
     observations (RunChecks \<lparr>checkers = [getLatest], pipelineContext = newContext\<rparr>) @
     observations (RunChecks \<lparr>checkers = [cliUpToDate, selfCheck True twoResults],
                    pipelineContext = newContext\<lparr>latestVersion := ''v18.8.2''\<rparr>\<rparr>)
   \<and> observations (RunChecks \<lparr>checkers = [getLatest], pipelineContext = newContext\<rparr>) =
       [(''linkerd-version'', ''can get the latest version'', None)]
   \<and> observations (RunChecks \<lparr>checkers = [selfCheck False deadlineExceeded],
                                pipelineContext = newContext\<rparr>) =
       [(''linkerd-api'', ''can query the control plane API'',
         Some (External ''context deadline exceeded''))]
   \<and> observations (RunChecks \<lparr>checkers = [selfCheck True twoResults],
                                pipelineContext = newContext\<rparr>) =
       (''linkerd-api'', ''can query the control plane API'', None) #
       map (subObservation ''linkerd-api'') [kubernetesOK, prometheusFull]
   \<and> length (observations (RunChecks \<lparr>checkers = [selfCheck True twoResults],
                                        pipelineContext = newContext\<rparr>)) = 3
   \<and> subObservation ''linkerd-api'' kubernetesOK =
       (''linkerd-api[kubernetes]'', ''control plane can talk to Kubernetes'', None)"
proof -
  have pre: "checkLoop [getLatest] (start newContext) =
               (Next, \<lparr>observed = [(''linkerd-version'', ''can get the latest version'', None)],
                       ctx = newContext\<lparr>latestVersion := ''v18.8.2''\<rparr>, success = True\<rparr>)"
    by (simp add: ex_defs run_defs)
  show ?thesis
    using observer_once_per_outcome_in_order [where pre = "[getLatest]" and ?s0.0 = newContext
        and ?r1.0 = "\<lparr>observed = [(''linkerd-version'', ''can get the latest version'', None)],
                       ctx = newContext\<lparr>latestVersion := ''v18.8.2''\<rparr>, success = True\<rparr>"
        and post = "[cliUpToDate, selfCheck True twoResults]"
        and c = getLatest and f = "\<lambda>s. (None, s\<lparr>latestVersion := ''v18.8.2''\<rparr>)"
        and s = newContext and err = None
        and ?s1.0 = "newContext\<lparr>latestVersion := ''v18.8.2''\<rparr>"
        and q = "selfCheck False deadlineExceeded" and h = "\<lambda>s. (deadlineExceeded, s)"
        and u = newContext and ?u1.0 = newContext and answer = None
        and e = "External ''context deadline exceeded''"
        and d = "selfCheck True twoResults" and g = "\<lambda>s. (twoResults, s)"
        and t = newContext and ?t1.0 = newContext
        and rsp = "\<lparr>Results = [kubernetesOK, prometheusFull]\<rparr>"
        and x = kubernetesOK and cat = "''linkerd-api''"] pre
    by (simp add: getLatest_def selfCheck_def twoResults_def deadlineExceeded_def
          kubernetesOK_def)
qed

text \<open>
  A remote check whose call succeeds with a response that holds no result: the observer
  is invoked once, for the call itself, although the response has nothing to report.
\<close>

theorem observer_once_per_outcome_counterexample:
  "observations (RunChecks \<lparr>checkers = [selfCheck True noResults],
                             pipelineContext = newContext\<rparr>) =
     [(''linkerd-api'', ''can query the control plane API'', None)]
   \<and> fst noResults = Some \<lparr>Results = []\<rparr> \<and> snd noResults = None
   \<and> length (observations (RunChecks \<lparr>checkers = [selfCheck True noResults],
                                      pipelineContext = newContext\<rparr>)) \<noteq>
       length (Results \<lparr>Results = []\<rparr>)"
  by (simp add: ex_defs run_defs)

subsection \<open>The empty health checker\<close>

text \<open>
  C10. A health checker fresh from \<^verbatim>\<open>NewHealthChecker\<close>, with nothing registered,
  runs to the result \<open>True\<close> without a single observer invocation.
\<close>

theorem RunChecks_NewHealthChecker:
  "RunChecks NewHealthChecker = Inr (True, [], pipelineContext NewHealthChecker)"
  by (simp add: RunChecks_def NewHealthChecker_def start_def finish_def)

section \<open>Properties of the Kubernetes API client\<close>

subsection \<open>The namespace check\<close>

text \<open>
  C9. \<^verbatim>\<open>CheckNamespaceExists\<close> returns \<^verbatim>\<open>nil\<close> only when the URL parsed, the
  request was built and the API answered with status 200. When the API answers, the
  result is \<^verbatim>\<open>nil\<close> exactly for status 200; status 404 gives the error that the
  namespace does not exist, which carries the namespace; every other status gives the
  error of an unexpected response, which carries the status line. The two errors differ.
\<close>

theorem CheckNamespaceExists_by_status:
  \<open>(CheckNamespaceExists net kubeapi client namespace = None \<longrightarrow>
      (\<exists>endpoint req rsp.
         url_Parse net (Host kubeapi @ ''/api/v1/namespaces/'' @ namespace) = Inr endpoint
         \<and> http_NewRequest net ''GET'' (url_String net endpoint) = Inr req
         \<and> client req = Inr rsp \<and> StatusCode rsp = 200))
   \<and> (url_Parse net (Host kubeapi @ ''/api/v1/namespaces/'' @ namespace) = Inr endpoint
        \<and> http_NewRequest net ''GET'' (url_String net endpoint) = Inr req
        \<and> client req = Inr rsp \<longrightarrow>
       (CheckNamespaceExists net kubeapi client namespace = None) = (StatusCode rsp = 200)
       \<and> (StatusCode rsp = 404 \<longrightarrow>
            CheckNamespaceExists net kubeapi client namespace =
              Some (Errorf ''The "%s" namespace does not exist'' [ArgString namespace]))
       \<and> (StatusCode rsp \<noteq> 404 \<and> StatusCode rsp \<noteq> 200 \<longrightarrow>
            CheckNamespaceExists net kubeapi client namespace =
              Some (Errorf ''Unexpected Kubernetes API response: %s''
                      [ArgString (StatusText rsp)])))
   \<and> Errorf ''The "%s" namespace does not exist'' [ArgString namespace] \<noteq>
       Errorf ''Unexpected Kubernetes API response: %s'' [ArgString status]\<close>
  by (auto simp: CheckNamespaceExists_def StatusOK_def StatusNotFound_def
        split: sum.splits if_splits)

theorem CheckNamespaceExists_by_status_witness:
  \<open>CheckNamespaceExists plainNet \<lparr>Host = ''https://10.0.0.1''\<rparr> (answering 200 ''200 OK'')
      ''linkerd'' = None
   \<and> CheckNamespaceExists plainNet \<lparr>Host = ''https://10.0.0.1''\<rparr>
        (answering 404 ''404 Not Found'') ''linkerd'' =
       Some (Errorf ''The "%s" namespace does not exist'' [ArgString ''linkerd''])
   \<and> CheckNamespaceExists plainNet \<lparr>Host = ''https://10.0.0.1''\<rparr>
        (answering 503 ''503 Service Unavailable'') ''linkerd'' =
       Some (Errorf ''Unexpected Kubernetes API response: %s''
               [ArgString ''503 Service Unavailable''])\<close>
  using
    CheckNamespaceExists_by_status [where net = plainNet
      and kubeapi = "\<lparr>Host = ''https://10.0.0.1''\<rparr>" and namespace = "''linkerd''"
      and client = "answering 200 ''200 OK''"
      and endpoint = "''https://10.0.0.1/api/v1/namespaces/linkerd''"
      and req = "''GET https://10.0.0.1/api/v1/namespaces/linkerd''"
      and rsp = "\<lparr>StatusCode = 200, StatusText = ''200 OK''\<rparr>"]
    CheckNamespaceExists_by_status [where net = plainNet
      and kubeapi = "\<lparr>Host = ''https://10.0.0.1''\<rparr>" and namespace = "''linkerd''"
      and client = "answering 404 ''404 Not Found''"
      and endpoint = "''https://10.0.0.1/api/v1/namespaces/linkerd''"
      and req = "''GET https://10.0.0.1/api/v1/namespaces/linkerd''"
      and rsp = "\<lparr>StatusCode = 404, StatusText = ''404 Not Found''\<rparr>"]
    CheckNamespaceExists_by_status [where net = plainNet
      and kubeapi = "\<lparr>Host = ''https://10.0.0.1''\<rparr>" and namespace = "''linkerd''"
      and client = "answering 503 ''503 Service Unavailable''"
      and endpoint = "''https://10.0.0.1/api/v1/namespaces/linkerd''"
      and req = "''GET https://10.0.0.1/api/v1/namespaces/linkerd''"
      and rsp = "\<lparr>StatusCode = 503, StatusText = ''503 Service Unavailable''\<rparr>"]
  by (simp add: plainNet_def answering_def)

subsection \<open>Comparing versions\<close>

lemma isCompatible_le: "isCompatible actual required = (required \<le> actual)"
proof -
  obtain a1 a2 a3 where a: "actual = (a1, a2, a3)" by (cases actual) auto
  obtain r1 r2 r3 where r: "required = (r1, r2, r3)" by (cases required) auto
  show ?thesis
    unfolding a r by (auto simp: isCompatible_def less_eq_prod_def)
qed

text \<open>
  C4. \<open>isCompatible actual required\<close> holds if and only if \<open>required\<close> is at most
  \<open>actual\<close> in the lexicographic order of triples. So (1,9,0), (2,0,0) and (1,8,0)
  are compatible with the requirement (1,8,0), and (1,7,9) is not.
\<close>

theorem isCompatible_lexicographic:
  "isCompatible actual required = (required \<le> actual)
   \<and> isCompatible (1, 9, 0) (1, 8, 0)
   \<and> isCompatible (2, 0, 0) (1, 8, 0)
   \<and> isCompatible (1, 8, 0) (1, 8, 0)
   \<and> \<not> isCompatible (1, 7, 9) (1, 8, 0)"
proof -
  have "isCompatible (1, 9, 0) (1, 8, 0)" and "isCompatible (2, 0, 0) (1, 8, 0)"
    and "isCompatible (1, 8, 0) (1, 8, 0)" and "\<not> isCompatible (1, 7, 9) (1, 8, 0)"
    by (simp_all add: isCompatible_def)
  then show ?thesis
    using isCompatible_le [of actual required] by blast
qed

text \<open>\<^verbatim>\<open>CheckVersion\<close> accepts the versions that parse and reach \<^verbatim>\<open>minApiVersion\<close>.\<close>

lemma CheckVersion_minimum:
  "(CheckVersion versionString = None) =
     (\<exists>v. parse versionString = Inr v \<and> minApiVersion \<le> v)"
  by (auto simp: CheckVersion_def isCompatible_le split: sum.splits)

subsection \<open>Parsing versions\<close>

lemma not_isDigit_dot: "\<not> isDigit CHR ''.''"
  by (simp add: isDigit_def)

lemma component_numeric:
  assumes "numeric ds" and "rest = [] \<or> \<not> isDigit (hd rest)"
  shows "component (ds @ rest) = Some (number ds, rest)"
proof -
  have all: "\<And>x. x \<in> set ds \<Longrightarrow> isDigit x" and ne: "ds \<noteq> []"
    using assms(1) by (simp_all add: numeric_def list_all_iff)
  have "takeWhile isDigit rest = []" and "dropWhile isDigit rest = rest"
    using assms(2) by (cases rest; auto)+
  then have "takeWhile isDigit (ds @ rest) = ds" and "dropWhile isDigit (ds @ rest) = rest"
    using all by (simp_all add: takeWhile_append2 dropWhile_append2)
  then show ?thesis using ne by (simp add: component_def)
qed

lemma component_Some:
  assumes "component s = Some (n, rest)"
  shows "\<exists>ds. s = ds @ rest \<and> numeric ds \<and> n = number ds
           \<and> (rest = [] \<or> \<not> isDigit (hd rest))"
proof -
  let ?ds = "takeWhile isDigit s"
  from assms have ne: "?ds \<noteq> []" and n: "n = number ?ds" and rest: "rest = dropWhile isDigit s"
    by (auto simp: component_def Let_def split: if_splits)
  have "s = ?ds @ rest" by (simp add: rest)
  moreover have "numeric ?ds"
    using ne by (auto simp: numeric_def list_all_iff dest: set_takeWhileD)
  moreover have "rest = [] \<or> \<not> isDigit (hd rest)"
    unfolding rest using hd_dropWhile [of isDigit s] by blast
  ultimately show ?thesis using n by blast
qed

lemma separator_Some: "(separator s = Some t) = (s = CHR ''.'' # t)"
  by (cases s) (auto simp: separator_def)

lemma dropWhile_tag:
  assumes "\<forall>x\<in>set tag. \<not> isDigit x" and "numeric ds"
  shows "dropWhile (\<lambda>c. \<not> isDigit c) (tag @ ds @ rest) = ds @ rest"
proof -
  from assms(2) obtain d ds' where ds: "ds = d # ds'" and d: "isDigit d"
    by (cases ds) (auto simp: numeric_def)
  have "dropWhile (\<lambda>c. \<not> isDigit c) (tag @ ds @ rest) =
          dropWhile (\<lambda>c. \<not> isDigit c) (ds @ rest)"
    using assms(1) by (simp add: dropWhile_append2)
  with ds d show ?thesis by simp
qed

lemma parse_accepts:
  assumes "\<forall>x\<in>set tag. \<not> isDigit x"
    and "numeric a" and "numeric b" and "numeric c"
    and "rest = [] \<or> \<not> isDigit (hd rest)"
  shows "parse (tag @ a @ ''.'' @ b @ ''.'' @ c @ rest) = Inr (number a, number b, number c)"
proof -
  let ?t2 = "CHR ''.'' # c @ rest"
  let ?t1 = "CHR ''.'' # b @ ?t2"
  have dot: "\<And>t. CHR ''.'' # t = [] \<or> \<not> isDigit (hd (CHR ''.'' # t))"
    by (simp add: not_isDigit_dot)
  have s0: "dropWhile (\<lambda>c. \<not> isDigit c) (tag @ a @ ?t1) = a @ ?t1"
    using assms(1,2) by (rule dropWhile_tag)
  have ca: "component (a @ ?t1) = Some (number a, ?t1)"
    using assms(2) dot by (rule component_numeric)
  have cb: "component (b @ ?t2) = Some (number b, ?t2)"
    using assms(3) dot by (rule component_numeric)
  have cc: "component (c @ rest) = Some (number c, rest)"
    using assms(4,5) by (rule component_numeric)
  show ?thesis
    by (simp add: parse_def s0 ca cb cc separator_def)
qed

lemma parse_accepts_only:
  assumes "parse raw = Inr v"
  shows "\<exists>tag a b c rest.
           raw = tag @ a @ ''.'' @ b @ ''.'' @ c @ rest
           \<and> (\<forall>x\<in>set tag. \<not> isDigit x) \<and> numeric a \<and> numeric b \<and> numeric c
           \<and> (rest = [] \<or> \<not> isDigit (hd rest))
           \<and> v = (number a, number b, number c)"
proof -
  define tag where "tag = takeWhile (\<lambda>c. \<not> isDigit c) raw"
  define s0 where "s0 = dropWhile (\<lambda>c. \<not> isDigit c) raw"
  have raw: "raw = tag @ s0" by (simp add: tag_def s0_def)
  from assms obtain major s1 s2 minor s3 s4 patch rest where
    c1: "component s0 = Some (major, s1)" and p1: "separator s1 = Some s2" and
    c2: "component s2 = Some (minor, s3)" and p2: "separator s3 = Some s4" and
    c3: "component s4 = Some (patch, rest)" and v: "v = (major, minor, patch)"
    unfolding parse_def s0_def [symmetric]
    by (auto split: option.splits prod.splits)
  from component_Some [OF c1] obtain a where
    a: "s0 = a @ s1" "numeric a" "major = number a" by blast
  from component_Some [OF c2] obtain b where
    b: "s2 = b @ s3" "numeric b" "minor = number b" by blast
  from component_Some [OF c3] obtain c where
    c: "s4 = c @ rest" "numeric c" "patch = number c"
       "rest = [] \<or> \<not> isDigit (hd rest)" by blast
  have s1: "s1 = CHR ''.'' # s2" and s3: "s3 = CHR ''.'' # s4"
    using p1 p2 by (simp_all add: separator_Some)
  have "raw = tag @ a @ ''.'' @ b @ ''.'' @ c @ rest"
    by (simp add: raw a(1) s1 b(1) s3 c(1))
  moreover have "\<forall>x\<in>set tag. \<not> isDigit x"
    unfolding tag_def by (auto dest: set_takeWhileD)
  ultimately show ?thesis
    using a(2,3) b(2,3) c(2,3,4) v by blast
qed

lemma parse_error: "parse raw = Inl e \<Longrightarrow> e = ParseError raw"
  by (auto simp: parse_def split: option.splits prod.splits)

text \<open>
  C8. Parsing \<^verbatim>\<open>v1.9.3-gke.2\<close> gives (1, 9, 3) and parsing \<^verbatim>\<open>abc\<close> fails with
  the parse error of that string. In general: after a tag without digits, three numeric
  components separated by dots parse to their values, whatever follows the third, as long
  as it does not continue it. Conversely a string parses only if it has this form, and
  every failure is the parse error that names the input.
\<close>

theorem parse_version:
  "parse ''v1.9.3-gke.2'' = Inr (1, 9, 3)
   \<and> parse ''abc'' = Inl (ParseError ''abc'')
   \<and> ((\<forall>x\<in>set tag. \<not> isDigit x) \<and> numeric a \<and> numeric b \<and> numeric c
        \<and> (rest = [] \<or> \<not> isDigit (hd rest))
      \<longrightarrow> parse (tag @ a @ ''.'' @ b @ ''.'' @ c @ rest) = Inr (number a, number b, number c))
   \<and> (parse raw = Inr v \<longrightarrow>
        (\<exists>tag a b c rest.
           raw = tag @ a @ ''.'' @ b @ ''.'' @ c @ rest
           \<and> (\<forall>x\<in>set tag. \<not> isDigit x) \<and> numeric a \<and> numeric b \<and> numeric c
           \<and> (rest = [] \<or> \<not> isDigit (hd rest))
           \<and> v = (number a, number b, number c)))
   \<and> (parse bad = Inl e \<longrightarrow> e = ParseError bad)"
proof (intro conjI impI)
  show "parse ''v1.9.3-gke.2'' = Inr (1, 9, 3)"
    by (simp add: parse_def component_def separator_def isDigit_def number_def)
  show "parse ''abc'' = Inl (ParseError ''abc'')"
    by (simp add: parse_def component_def isDigit_def)
next
  assume "(\<forall>x\<in>set tag. \<not> isDigit x) \<and> numeric a \<and> numeric b \<and> numeric c
        \<and> (rest = [] \<or> \<not> isDigit (hd rest))"
  then show "parse (tag @ a @ ''.'' @ b @ ''.'' @ c @ rest) =
      Inr (number a, number b, number c)"
    using parse_accepts by blast
next
  assume "parse raw = Inr v"
  then show "\<exists>tag a b c rest.
           raw = tag @ a @ ''.'' @ b @ ''.'' @ c @ rest
           \<and> (\<forall>x\<in>set tag. \<not> isDigit x) \<and> numeric a \<and> numeric b \<and> numeric c
           \<and> (rest = [] \<or> \<not> isDigit (hd rest))
           \<and> v = (number a, number b, number c)"
    by (rule parse_accepts_only)
next
  assume "parse bad = Inl e"
  then show "e = ParseError bad" by (rule parse_error)
qed

theorem parse_version_witness:
  "parse (''kubernetes-v'' @ ''1'' @ ''.'' @ ''10'' @ ''.'' @ ''12'' @ ''+build.7'') =
     Inr (1, 10, 12)
   \<and> parse ''1.9'' = Inl (ParseError ''1.9'')"
proof -
  have "parse ''1.9'' = Inl (ParseError ''1.9'')"
    by (simp add: parse_def component_def separator_def isDigit_def number_def)
  then show ?thesis
    using parse_version [where tag = "''kubernetes-v''" and a = "''1''" and b = "''10''"
        and c = "''12''" and rest = "''+build.7''" and bad = "''1.9''"
        and e = "ParseError ''1.9''"]
    by (simp add: numeric_def isDigit_def number_def)
qed

end
